theory Spec2Isabelle
  imports Main "HOL-Library.Sublist" "HOL-Library.Word"
begin

section \<open>Python string operations used by the uploader\<close>

text \<open>
  A string is a list of characters. The uploader compares characters with the slash, the
  backslash and the letters of two fixed ASCII words only, so nothing below depends on
  what the other characters are.

  \<^verbatim>\<open>str.replace(old, new)\<close>: every non-overlapping occurrence of \<open>old\<close>, found from
  the left, is replaced by \<open>new\<close>. For an empty \<open>old\<close> Python inserts \<open>new\<close> before every
  character and at the end.
\<close>

fun str_replace :: "string \<Rightarrow> string \<Rightarrow> string \<Rightarrow> string" where
  "str_replace old new [] = (if old = [] then new else [])"
| "str_replace old new (c # cs) =
     (if old = [] then new @ c # str_replace old new cs
      else if prefix old (c # cs) then new @ str_replace old new (drop (length old) (c # cs))
      else c # str_replace old new cs)"

text \<open>\<^verbatim>\<open>sub in s\<close>: \<open>sub\<close> occurs in \<open>s\<close> as a contiguous substring.\<close>

fun str_contains :: "string \<Rightarrow> string \<Rightarrow> bool" where
  "str_contains sub [] = (sub = [])"
| "str_contains sub (c # cs) = (prefix sub (c # cs) \<or> str_contains sub cs)"

text \<open>\<^verbatim>\<open>s.startswith(p)\<close>.\<close>

definition startswith :: "string \<Rightarrow> string \<Rightarrow> bool" where
  "startswith s p = prefix p s"

section \<open>Remote path normalisation\<close>

text \<open>
  The loop \<^verbatim>\<open>while "//" in path: path = path.replace("//", "/")\<close> of
  \<^verbatim>\<open>_normalize_dropbox_path\<close>. Every pass shortens a path that still holds a double
  slash, which is the termination argument.
\<close>

lemma replace_double_slash_length_le:
  "length (str_replace ''//'' ''/'' s) \<le> length s"
  by (induction s rule: induct_list012) auto

lemma replace_double_slash_shorter:
  "str_contains ''//'' s \<Longrightarrow> length (str_replace ''//'' ''/'' s) < length s"
proof (induction s rule: induct_list012)
  case (3 x y zs)
  have le: "length (str_replace ''//'' ''/'' zs) \<le> length zs"
    by (rule replace_double_slash_length_le)
  from 3 le show ?case by auto
qed auto

function remove_double_slashes :: "string \<Rightarrow> string" where
  "remove_double_slashes path =
     (if str_contains ''//'' path
      then remove_double_slashes (str_replace ''//'' ''/'' path)
      else path)"
  by pat_completeness auto

termination
  by (relation "measure length") (auto simp: replace_double_slash_shorter)

declare remove_double_slashes.simps [simp del]

definition normalize_dropbox_path :: "string \<Rightarrow> string" where
  "normalize_dropbox_path path0 =
     (let path = (if \<not> startswith path0 ''/'' then ''/'' @ path0 else path0);
          path = str_replace [CHR 0x5C] ''/'' path
      in remove_double_slashes path)"

text \<open>
  \<^verbatim>\<open>str.lower()\<close> on the characters a backend error text is matched on: the ASCII
  capitals go to their small letters, every other character stays.
\<close>

definition char_lower :: "char \<Rightarrow> char" where
  "char_lower c =
     (let n = (of_char c :: nat) in if 65 \<le> n \<and> n \<le> 90 then char_of (n + 32) else c)"

definition lower :: "string \<Rightarrow> string" where
  "lower s = map char_lower s"

text \<open>Python truthiness of an optional string: \<^verbatim>\<open>None\<close> and \<^verbatim>\<open>""\<close> are false.\<close>

definition truthy :: "string option \<Rightarrow> bool" where
  "truthy v = (case v of None \<Rightarrow> False | Some t \<Rightarrow> t \<noteq> [])"

definition text_of :: "string option \<Rightarrow> string" where
  "text_of v = (case v of None \<Rightarrow> [] | Some t \<Rightarrow> t)"

section \<open>Constants\<close>

definition CHUNK_SIZE :: nat where
  "CHUNK_SIZE = 4 * 1024 * 1024"

definition MAX_RETRIES :: nat where
  "MAX_RETRIES = 3"

definition RETRY_DELAY :: nat where
  "RETRY_DELAY = 5"

section \<open>Exceptions\<close>

text \<open>
  What a backend call can raise. \<open>ApiError str_e error_msg\<close> carries both texts the
  uploader reads from the exception: \<^verbatim>\<open>str(e)\<close> and \<^verbatim>\<open>str(e.error)\<close>. The other
  constructors carry \<^verbatim>\<open>str(e)\<close>. \<open>OtherException\<close> is any exception that is none of
  the four named classes.
\<close>

datatype dropbox_exn =
    AuthError string
  | ApiError string string
  | ConnectionError string
  | TimeoutError string
  | OtherException string

text \<open>The uploader's own exception classes, each with its message.\<close>

datatype uploader_error =
    DropboxUploaderError string
  | AuthenticationError string
  | FileNotFoundError string
  | UploadError string

text \<open>What can propagate out of one upload attempt.\<close>

datatype raised = Backend dropbox_exn | Uploader uploader_error

fun dropbox_exn_str :: "dropbox_exn \<Rightarrow> string" where
  "dropbox_exn_str (AuthError m) = m"
| "dropbox_exn_str (ApiError m error_msg) = m"
| "dropbox_exn_str (ConnectionError m) = m"
| "dropbox_exn_str (TimeoutError m) = m"
| "dropbox_exn_str (OtherException m) = m"

fun uploader_error_str :: "uploader_error \<Rightarrow> string" where
  "uploader_error_str (DropboxUploaderError m) = m"
| "uploader_error_str (AuthenticationError m) = m"
| "uploader_error_str (FileNotFoundError m) = m"
| "uploader_error_str (UploadError m) = m"

fun raised_str :: "raised \<Rightarrow> string" where
  "raised_str (Backend e) = dropbox_exn_str e"
| "raised_str (Uploader e) = uploader_error_str e"

section \<open>The backend and the uploader's state\<close>

type_synonym bytes = "8 word list"

datatype write_mode = overwrite_mode | add_mode

datatype cursor = UploadSessionCursor string nat

datatype commit_info = CommitInfo string write_mode

text \<open>The five operations of the Dropbox client the uploader calls, with their arguments.\<close>

datatype call =
    users_get_current_account
  | files_upload bytes string write_mode
  | files_upload_session_start bytes
  | files_upload_session_append_v2 bytes cursor
  | files_upload_session_finish bytes cursor commit_info

text \<open>
  What the outside world observes of one run, in order: the backend calls and the calls
  of \<^verbatim>\<open>time.sleep\<close> with their argument in seconds.
\<close>

datatype event = Call call | Sleep nat

text \<open>
  The backend answers a call, given everything observed before it, with an exception or
  with the one text the uploader reads from the result: the account's display name, the
  session id, or the metadata's \<^verbatim>\<open>path_display\<close> (the result of an append is not read).
\<close>

type_synonym backend = "event list \<Rightarrow> call \<Rightarrow> dropbox_exn + string"

datatype client = RefreshClient string string string | TokenClient string

text \<open>
  The fields of a \<^verbatim>\<open>DropboxUploader\<close>, the events observed so far, and a ghost counter
  of the iterations of the retry loop that were entered.
\<close>

record state =
  explicit_access_token :: "string option"
  env_access_token :: "string option"
  app_key :: "string option"
  app_secret :: "string option"
  refresh_token :: "string option"
  client_handle :: "client option"
  events :: "event list"
  attempts :: nat

definition backend_call :: "backend \<Rightarrow> call \<Rightarrow> state \<Rightarrow> (dropbox_exn + string) \<times> state" where
  "backend_call be c s = (be (events s) c, s\<lparr>events := events s @ [Call c]\<rparr>)"

definition sleep :: "nat \<Rightarrow> state \<Rightarrow> state" where
  "sleep secs s = s\<lparr>events := events s @ [Sleep secs]\<rparr>"

definition verify_connection :: "backend \<Rightarrow> state \<Rightarrow> (uploader_error + unit) \<times> state" where
  "verify_connection be s =
     (case backend_call be users_get_current_account s of
        (Inr account, s1) \<Rightarrow> (Inr (), s1)
      | (Inl (AuthError m), s1) \<Rightarrow>
          (Inl (AuthenticationError (''Invalid Dropbox credentials: '' @ m)), s1)
      | (Inl e, s1) \<Rightarrow>
          (Inl (DropboxUploaderError (''Failed to connect to Dropbox: '' @ dropbox_exn_str e)), s1))"

text \<open>
  The \<^verbatim>\<open>client\<close> property. The new client is stored in \<^verbatim>\<open>self._client\<close> before the
  connection is verified, so it stays there when the verification raises.
  \<open>no_credentials\<close> is the message raised when no credential is set, in three lines.
\<close>

definition no_credentials :: string where
  "no_credentials =
     ''No Dropbox credentials provided.'' @ [CHR 0x0A] @
     ''Preferred: set DROPBOX_APP_KEY, DROPBOX_APP_SECRET, and DROPBOX_REFRESH_TOKEN.'' @
     [CHR 0x0A] @
     ''Fallback: set DROPBOX_ACCESS_TOKEN or pass --token.''"

definition connect :: "backend \<Rightarrow> client \<Rightarrow> state \<Rightarrow> (uploader_error + client) \<times> state" where
  "connect be c s =
     (case verify_connection be (s\<lparr>client_handle := Some c\<rparr>) of
        (Inl e, s1) \<Rightarrow> (Inl e, s1)
      | (Inr u, s1) \<Rightarrow> (Inr c, s1))"

definition legacy_client :: "backend \<Rightarrow> state \<Rightarrow> (uploader_error + client) \<times> state" where
  "legacy_client be s =
     (let access_token =
            (if truthy (explicit_access_token s) then explicit_access_token s
             else env_access_token s)
      in if \<not> truthy access_token then (Inl (AuthenticationError no_credentials), s)
         else connect be (TokenClient (text_of access_token)) s)"

definition get_client :: "backend \<Rightarrow> state \<Rightarrow> (uploader_error + client) \<times> state" where
  "get_client be s =
     (case client_handle s of
        Some c \<Rightarrow> (Inr c, s)
      | None \<Rightarrow>
          if truthy (refresh_token s) \<and> truthy (app_key s) \<and> truthy (app_secret s)
          then connect be
                 (RefreshClient (text_of (refresh_token s)) (text_of (app_key s))
                    (text_of (app_secret s))) s
          else legacy_client be s)"

text \<open>
  \<^verbatim>\<open>self.client.op(args)\<close>: the property is read first, then the operation is called.
\<close>

definition client_call :: "backend \<Rightarrow> call \<Rightarrow> state \<Rightarrow> (raised + string) \<times> state" where
  "client_call be c s =
     (case get_client be s of
        (Inl e, s1) \<Rightarrow> (Inl (Uploader e), s1)
      | (Inr cl, s1) \<Rightarrow>
          (case backend_call be c s1 of
             (Inl e, s2) \<Rightarrow> (Inl (Backend e), s2)
           | (Inr v, s2) \<Rightarrow> (Inr v, s2)))"

section \<open>The local file\<close>

text \<open>
  What the uploader reads of the resolved local path: whether it exists and is a regular
  file, its last path component, the size \<^verbatim>\<open>stat\<close> reports and the bytes a read returns.
  The file is taken to be readable; \<open>st_size\<close> and the length of \<open>file_content\<close> are
  separate, as they are separate system calls.
\<close>

record local_file =
  file_exists :: bool
  is_file :: bool
  file_name :: string
  st_size :: nat
  file_content :: bytes

text \<open>
  The host: \<^verbatim>\<open>_resolve_local_path\<close> (the rewriting of Git Bash and Cygwin paths followed
  by \<^verbatim>\<open>Path.resolve\<close>) and the file system's answer for a resolved path. Both are
  parameters: the results below hold for every host.
\<close>

record host =
  resolve_local_path :: "string \<Rightarrow> string"
  path_lookup :: "string \<Rightarrow> local_file"

text \<open>\<^verbatim>\<open>f.read(n)\<close> at position \<open>pos\<close>; \<^verbatim>\<open>f.tell()\<close> afterwards is \<open>pos\<close> plus its length.\<close>

definition f_read :: "bytes \<Rightarrow> nat \<Rightarrow> nat \<Rightarrow> bytes" where
  "f_read content pos n = take n (drop pos content)"

section \<open>The two upload paths\<close>

definition write_mode_of :: "bool \<Rightarrow> write_mode" where
  "write_mode_of overwrite = (if overwrite then overwrite_mode else add_mode)"

definition upload_small_file ::
  "backend \<Rightarrow> local_file \<Rightarrow> string \<Rightarrow> bool \<Rightarrow> state \<Rightarrow> (raised + string) \<times> state" where
  "upload_small_file be file dropbox_path overwrite s =
     client_call be
       (files_upload (file_content file) dropbox_path (write_mode_of overwrite)) s"

text \<open>
  The \<^verbatim>\<open>while f.tell() < file_size\<close> loop of \<^verbatim>\<open>_upload_large_file\<close>; \<open>pos\<close> is
  \<^verbatim>\<open>f.tell()\<close>. A read at the end of a file shorter than \<open>file_size\<close> returns nothing and
  leaves the position where it is, so the loop need not end: not returning is \<open>None\<close>.
  The cursor's offset is set to \<^verbatim>\<open>f.tell()\<close> when the cursor is made and after every
  append, so at every call the cursor is \<open>UploadSessionCursor session_id pos\<close>.
\<close>

partial_function (option) upload_chunks ::
  "backend \<Rightarrow> bytes \<Rightarrow> nat \<Rightarrow> commit_info \<Rightarrow> nat \<Rightarrow> string \<Rightarrow> state
     \<Rightarrow> ((raised + string) \<times> state) option" where
  "upload_chunks be content file_size commit pos session_id s =
     (if pos < file_size then
        (let remaining = file_size - pos in
         if remaining \<le> CHUNK_SIZE then
           Some (client_call be
                   (files_upload_session_finish (f_read content pos remaining)
                      (UploadSessionCursor session_id pos) commit) s)
         else
           (case client_call be
                   (files_upload_session_append_v2 (f_read content pos CHUNK_SIZE)
                      (UploadSessionCursor session_id pos)) s of
              (Inl e, s1) \<Rightarrow> Some (Inl e, s1)
            | (Inr v, s1) \<Rightarrow>
                upload_chunks be content file_size commit
                  (pos + length (f_read content pos CHUNK_SIZE)) session_id s1))
      else Some (Inl (Uploader (UploadError ''Unexpected end of file during chunked upload'')), s))"

definition upload_large_file ::
  "backend \<Rightarrow> local_file \<Rightarrow> string \<Rightarrow> nat \<Rightarrow> bool \<Rightarrow> state
     \<Rightarrow> ((raised + string) \<times> state) option" where
  "upload_large_file be file dropbox_path file_size overwrite s =
     (let first_chunk = f_read (file_content file) 0 CHUNK_SIZE in
      case client_call be (files_upload_session_start first_chunk) s of
        (Inl e, s1) \<Rightarrow> Some (Inl e, s1)
      | (Inr session_id, s1) \<Rightarrow>
          upload_chunks be (file_content file) file_size
            (CommitInfo dropbox_path (write_mode_of overwrite))
            (length first_chunk) session_id s1)"

section \<open>The retry loop\<close>

text \<open>The body of the \<^verbatim>\<open>try\<close>: the path is chosen by the file size.\<close>

definition attempt_upload ::
  "backend \<Rightarrow> local_file \<Rightarrow> string \<Rightarrow> nat \<Rightarrow> bool \<Rightarrow> state
     \<Rightarrow> ((raised + string) \<times> state) option" where
  "attempt_upload be file dropbox_path file_size overwrite s =
     (if file_size \<le> 150 * 1024 * 1024
      then Some (upload_small_file be file dropbox_path overwrite s)
      else upload_large_file be file dropbox_path file_size overwrite s)"

text \<open>
  The \<^verbatim>\<open>except\<close> clauses, in the order of the source. The result is the exception the
  clause raises, or \<open>None\<close> when the loop goes on to its next iteration.
\<close>

definition retry_or_fail :: "nat \<Rightarrow> string \<Rightarrow> state \<Rightarrow> uploader_error option \<times> state" where
  "retry_or_fail attempt msg s =
     (if attempt < MAX_RETRIES then (None, sleep RETRY_DELAY s)
      else (Some (UploadError msg), s))"

fun handle_exception ::
  "string \<Rightarrow> bool \<Rightarrow> nat \<Rightarrow> raised \<Rightarrow> state \<Rightarrow> uploader_error option \<times> state" where
  "handle_exception dropbox_path overwrite attempt (Backend (AuthError m)) s =
     (Some (AuthenticationError (''Authentication failed: '' @ m)), s)"
| "handle_exception dropbox_path overwrite attempt (Backend (ApiError m error_msg)) s =
     (if str_contains ''path/conflict'' (lower error_msg) then
        (if overwrite then (None, s)
         else (Some (UploadError (''File already exists at '' @ dropbox_path)), s))
      else if str_contains ''insufficient_space'' (lower error_msg) then
        (Some (UploadError ''Insufficient space in Dropbox account''), s)
      else retry_or_fail attempt (''Upload failed after 3 attempts: '' @ error_msg) s)"
| "handle_exception dropbox_path overwrite attempt (Backend (ConnectionError m)) s =
     retry_or_fail attempt (''Connection failed after 3 attempts: '' @ m) s"
| "handle_exception dropbox_path overwrite attempt (Backend (TimeoutError m)) s =
     retry_or_fail attempt (''Connection failed after 3 attempts: '' @ m) s"
| "handle_exception dropbox_path overwrite attempt (Backend (OtherException m)) s =
     retry_or_fail attempt (''Upload failed: '' @ m) s"
| "handle_exception dropbox_path overwrite attempt (Uploader e) s =
     retry_or_fail attempt (''Upload failed: '' @ uploader_error_str e) s"

text \<open>
  \<^verbatim>\<open>for attempt in range(1, MAX_RETRIES + 1)\<close>, as a recursion over the attempt numbers
  still to come, and the \<^verbatim>\<open>raise\<close> after the loop. Entering an iteration is counted in
  the ghost field \<open>attempts\<close>.
\<close>

definition count_attempt :: "state \<Rightarrow> state" where
  "count_attempt s = s\<lparr>attempts := attempts s + 1\<rparr>"

fun retry_loop ::
  "backend \<Rightarrow> local_file \<Rightarrow> string \<Rightarrow> nat \<Rightarrow> bool \<Rightarrow> nat list \<Rightarrow> raised option \<Rightarrow> state
     \<Rightarrow> ((uploader_error + string) \<times> state) option" where
  "retry_loop be file dropbox_path file_size overwrite [] last_error s =
     Some (Inl (UploadError (''Upload failed after 3 attempts: '' @
             (case last_error of None \<Rightarrow> ''None'' | Some e \<Rightarrow> raised_str e))), s)"
| "retry_loop be file dropbox_path file_size overwrite (attempt # rest) last_error s =
     (case attempt_upload be file dropbox_path file_size overwrite (count_attempt s) of
        None \<Rightarrow> None
      | Some (Inr path_display, s1) \<Rightarrow> Some (Inr path_display, s1)
      | Some (Inl e, s1) \<Rightarrow>
          (case handle_exception dropbox_path overwrite attempt e s1 of
             (Some err, s2) \<Rightarrow> Some (Inl err, s2)
           | (None, s2) \<Rightarrow>
               retry_loop be file dropbox_path file_size overwrite rest (Some e) s2))"

section \<open>Upload\<close>

definition destination_path :: "string \<Rightarrow> string option \<Rightarrow> string \<Rightarrow> string" where
  "destination_path dropbox_folder filename name =
     (let dest_filename = (if truthy filename then text_of filename else name)
      in normalize_dropbox_path (dropbox_folder @ ''/'' @ dest_filename))"

definition upload ::
  "host \<Rightarrow> backend \<Rightarrow> string \<Rightarrow> string \<Rightarrow> string option \<Rightarrow> bool \<Rightarrow> state
     \<Rightarrow> ((uploader_error + string) \<times> state) option" where
  "upload h be local_path dropbox_folder filename overwrite s =
     (let file_path = resolve_local_path h local_path;
          file = path_lookup h file_path
      in if \<not> file_exists file then
           Some (Inl (FileNotFoundError (''File not found: '' @ file_path)), s)
         else if \<not> is_file file then
           Some (Inl (FileNotFoundError (''Path is not a file: '' @ file_path)), s)
         else
           retry_loop be file (destination_path dropbox_folder filename (file_name file))
             (st_size file) overwrite [1..<MAX_RETRIES + 1] None s)"

section \<open>Vocabulary of the retry policy\<close>

text \<open>
  The code's test for a path conflict: the lower-cased text of an API error holds the
  literal \<open>path/conflict\<close>. The failures after which the loop goes on when attempts
  remain are every exception but a rejected credential, an API error that passes this test
  while overwrite is disabled, and insufficient space.
\<close>

fun conflict_literal :: "raised \<Rightarrow> bool" where
  "conflict_literal (Backend (ApiError m error_msg)) =
     str_contains ''path/conflict'' (lower error_msg)"
| "conflict_literal e = False"

fun retryable :: "bool \<Rightarrow> raised \<Rightarrow> bool" where
  "retryable overwrite (Backend (AuthError m)) = False"
| "retryable overwrite (Backend (ApiError m error_msg)) =
     (if str_contains ''path/conflict'' (lower error_msg) then overwrite
      else \<not> str_contains ''insufficient_space'' (lower error_msg))"
| "retryable overwrite (Backend (ConnectionError m)) = True"
| "retryable overwrite (Backend (TimeoutError m)) = True"
| "retryable overwrite (Backend (OtherException m)) = True"
| "retryable overwrite (Uploader e) = True"

text \<open>
  An error message wraps a cause when it ends with the cause's text: \<^verbatim>\<open>str(e)\<close>, or
  \<^verbatim>\<open>str(e.error)\<close> for an API error.
\<close>

fun cause_text :: "raised \<Rightarrow> string set" where
  "cause_text (Backend (ApiError m error_msg)) = {m, error_msg}"
| "cause_text e = {raised_str e}"

definition wraps_cause :: "string \<Rightarrow> raised \<Rightarrow> bool" where
  "wraps_cause msg e = (\<exists>t \<in> cause_text e. suffix t msg)"

fun is_call :: "event \<Rightarrow> bool" where
  "is_call (Call c) = True"
| "is_call (Sleep secs) = False"

section \<open>Example runs\<close>

text \<open>
  A backend that answers its \<open>n\<close>-th call with the \<open>n\<close>-th entry of a script, and with an
  empty result once the script is used up.
\<close>

definition scripted :: "(dropbox_exn + string) list \<Rightarrow> backend" where
  "scripted answers evs c =
     (let n = length (filter is_call evs)
      in if n < length answers then answers ! n else Inr [])"

definition token_uploader :: state where
  "token_uploader =
     \<lparr>explicit_access_token = Some ''token'', env_access_token = None, app_key = None,
      app_secret = None, refresh_token = None, client_handle = None, events = [],
      attempts = 0\<rparr>"

definition report_file :: local_file where
  "report_file =
     \<lparr>file_exists = True, is_file = True, file_name = ''report.md'', st_size = 3,
      file_content = [1, 2, 3]\<rparr>"

definition missing_file :: local_file where
  "missing_file =
     \<lparr>file_exists = False, is_file = False, file_name = [], st_size = 0, file_content = []\<rparr>"

definition example_host :: host where
  "example_host =
     \<lparr>resolve_local_path = (\<lambda>p. p),
      path_lookup = (\<lambda>p. if p = ''report.md'' then report_file else missing_file)\<rparr>"

text \<open>
  The states a run on \<open>report.md\<close> passes through when the first two upload calls fail
  with a retryable error: after the first, the second and the third attempt.
\<close>

definition flaky_state_1 :: state where
  "flaky_state_1 = token_uploader\<lparr>client_handle := Some (TokenClient ''token''),
       events := [Call users_get_current_account,
                  Call (files_upload [1, 2, 3] ''/Reports/report.md'' overwrite_mode)],
       attempts := 1\<rparr>"

definition flaky_state_2 :: state where
  "flaky_state_2 = flaky_state_1\<lparr>
       events := events flaky_state_1 @
                 [Sleep 5, Call (files_upload [1, 2, 3] ''/Reports/report.md'' overwrite_mode)],
       attempts := 2\<rparr>"

definition flaky_state_3 :: state where
  "flaky_state_3 = flaky_state_2\<lparr>
       events := events flaky_state_2 @
                 [Sleep 5, Call (files_upload [1, 2, 3] ''/Reports/report.md'' overwrite_mode)],
       attempts := 3\<rparr>"

definition recovering_backend :: backend where
  "recovering_backend = scripted [Inr ''Test User'', Inl (ConnectionError ''reset''),
      Inl (TimeoutError ''timed out''), Inr ''/Reports/report.md'']"

definition failing_backend :: backend where
  "failing_backend = scripted [Inr ''Test User'', Inl (ConnectionError ''reset''),
      Inl (TimeoutError ''timed out''), Inl (OtherException ''broken pipe'')]"

section \<open>Vocabulary of the claims\<close>

text \<open>
  \<open>frame s s'\<close>: from \<open>s\<close> to \<open>s'\<close> no attempt was counted and the events grew by
  backend calls only (no sleep).
\<close>

definition frame :: "state \<Rightarrow> state \<Rightarrow> bool" where
  "frame s s' = (attempts s' = attempts s \<and> (\<exists>cs. events s' = events s @ map Call cs))"

text \<open>
  The bytes a call carries, and the calls of a session between its start and its finish:
  appends of one full chunk each.
\<close>

fun call_data :: "call \<Rightarrow> bytes" where
  "call_data users_get_current_account = []"
| "call_data (files_upload d p m) = d"
| "call_data (files_upload_session_start d) = d"
| "call_data (files_upload_session_append_v2 d c) = d"
| "call_data (files_upload_session_finish d c i) = d"

fun is_append :: "call \<Rightarrow> bool" where
  "is_append (files_upload_session_append_v2 d c) = True"
| "is_append c = False"

definition full_chunks :: "call list \<Rightarrow> bool" where
  "full_chunks cs = list_all (\<lambda>c. is_append c \<and> length (call_data c) = CHUNK_SIZE) cs"

text \<open>
  A backend that accepts every call, and an uploader that holds some credential to
  create its client from.
\<close>

definition accepts_all :: "backend \<Rightarrow> bool" where
  "accepts_all be = (\<forall>evs c. \<exists>v. be evs c = Inr v)"

definition has_credentials :: "state \<Rightarrow> bool" where
  "has_credentials s =
     (truthy (refresh_token s) \<and> truthy (app_key s) \<and> truthy (app_secret s) \<or>
      truthy (explicit_access_token s) \<or> truthy (env_access_token s))"

text \<open>
  The result of the defensive branch after the loop of \<^verbatim>\<open>_upload_large_file\<close>.
\<close>

definition unexpected_eof :: "raised + string" where
  "unexpected_eof = Inl (Uploader (UploadError ''Unexpected end of file during chunked upload''))"


text \<open>
  The delays waited, in order: the arguments of the sleeps among the events.
\<close>

fun sleeps :: "event list \<Rightarrow> nat list" where
  "sleeps [] = []"
| "sleeps (Call c # evs) = sleeps evs"
| "sleeps (Sleep secs # evs) = secs # sleeps evs"


text \<open>
  The Dropbox SDK is not part of the repository. It renders the error of an API
  exception as a tagged union in constructor notation, tags quoted and separated by
  commas; \<open>sdk_conflict\<close> is the exception an upload to an existing path without
  overwrite ends in. Such a text holds the words \<open>path\<close> and \<open>conflict\<close> and never the
  literal \<open>path/conflict\<close>. \<open>sdk_rendering be\<close> assumes as much of a backend: no
  exception it raises passes the code's test for a path conflict.
\<close>

definition sdk_conflict_text :: string where
  "sdk_conflict_text =
     ''UploadError('path', UploadWriteFailed(reason=WriteError('conflict', WriteConflictError('file', None)), upload_session_id='AAAAAAAAAAE'))''"

definition sdk_conflict :: dropbox_exn where
  "sdk_conflict = ApiError (''ApiError('f1a2b3c4', '' @ sdk_conflict_text @ '')'') sdk_conflict_text"



section \<open>More example runs\<close>

text \<open>
  A backend that answers the first upload call with the SDK's conflict error and accepts
  the second, with the states after the first and the second attempt of an upload with
  overwrite; and a backend that answers every upload call with that error.
\<close>

definition sdk_conflict_once :: backend where
  "sdk_conflict_once = scripted [Inr ''Test User'', Inl sdk_conflict, Inr ''/Reports/report.md'']"

definition conflict_state_1 :: state where
  "conflict_state_1 = token_uploader\<lparr>client_handle := Some (TokenClient ''token''),
       events := [Call users_get_current_account,
                  Call (files_upload [1, 2, 3] ''/Reports/report.md'' overwrite_mode)],
       attempts := 1\<rparr>"

definition conflict_state_2 :: state where
  "conflict_state_2 = conflict_state_1\<lparr>
       events := events conflict_state_1 @
                 [Sleep 5, Call (files_upload [1, 2, 3] ''/Reports/report.md'' overwrite_mode)],
       attempts := 2\<rparr>"

definition sdk_conflict_always :: backend where
  "sdk_conflict_always =
     scripted [Inr ''Test User'', Inl sdk_conflict, Inl sdk_conflict, Inl sdk_conflict]"

text \<open>
  A backend that rejects the credentials when the connection is verified and accepts
  the upload call that follows.
\<close>

definition rejecting_backend :: backend where
  "rejecting_backend =
     scripted [Inl (AuthError ''invalid_access_token''), Inr ''/Reports/report.md'']"

text \<open>
  A file of 150 MiB and one byte, and an uploader whose client exists already.
\<close>

definition large_file :: local_file where
  "large_file =
     \<lparr>file_exists = True, is_file = True, file_name = ''video.bin'', st_size = 157286401,
      file_content = replicate 157286401 0\<rparr>"

definition connected_uploader :: state where
  "connected_uploader = token_uploader\<lparr>client_handle := Some (TokenClient ''token'')\<rparr>"

section \<open>Properties of the path normalisation\<close>

lemma remove_double_slashes_clean:
  "\<not> str_contains ''//'' (remove_double_slashes s)"
proof (induction s rule: remove_double_slashes.induct)
  case (1 path)
  show ?case
  proof (cases "str_contains ''//'' path")
    case True
    with 1 show ?thesis by (subst remove_double_slashes.simps) simp
  next
    case False
    then show ?thesis by (subst remove_double_slashes.simps) simp
  qed
qed

lemma remove_double_slashes_fixed:
  "\<not> str_contains ''//'' s \<Longrightarrow> remove_double_slashes s = s"
  by (subst remove_double_slashes.simps) simp

lemma replace_double_slash_head:
  "startswith s ''/'' \<Longrightarrow> startswith (str_replace ''//'' ''/'' s) ''/''"
  by (induction s rule: induct_list012) (auto simp: startswith_def)

lemma remove_double_slashes_head:
  "startswith s ''/'' \<Longrightarrow> startswith (remove_double_slashes s) ''/''"
proof (induction s rule: remove_double_slashes.induct)
  case (1 path)
  show ?case
  proof (cases "str_contains ''//'' path")
    case True
    with 1 show ?thesis
      by (subst remove_double_slashes.simps) (simp add: replace_double_slash_head)
  next
    case False
    with 1 show ?thesis by (subst remove_double_slashes.simps) simp
  qed
qed

lemma replace_backslash_head:
  "startswith s ''/'' \<Longrightarrow> startswith (str_replace [CHR 0x5C] ''/'' s) ''/''"
  by (cases s) (auto simp: startswith_def)

lemma replace_backslash_absent:
  "CHR 0x5C \<notin> set s \<Longrightarrow> str_replace [CHR 0x5C] ''/'' s = s"
  by (induction s) auto

lemma replace_backslash_gone: "CHR 0x5C \<notin> set (str_replace [CHR 0x5C] ''/'' s)"
  by (induction s) auto

lemma replace_double_slash_set: "set (str_replace ''//'' ''/'' s) \<subseteq> set s"
  by (induction s rule: induct_list012) auto

lemma remove_double_slashes_set: "set (remove_double_slashes s) \<subseteq> set s"
proof (induction s rule: remove_double_slashes.induct)
  case (1 path)
  show ?case
  proof (cases "str_contains ''//'' path")
    case True
    with 1 have "set (remove_double_slashes (str_replace ''//'' ''/'' path))
        \<subseteq> set (str_replace ''//'' ''/'' path)"
      by simp
    also have "\<dots> \<subseteq> set path" by (rule replace_double_slash_set)
    finally show ?thesis using True by (subst remove_double_slashes.simps) simp
  next
    case False
    then show ?thesis by (subst remove_double_slashes.simps) simp
  qed
qed

lemma double_slash_prefix_contained: "startswith s ''//'' \<Longrightarrow> str_contains ''//'' s"
  by (cases s) (auto simp: startswith_def)

lemma normalize_head: "startswith (normalize_dropbox_path x) ''/''"
  unfolding normalize_dropbox_path_def Let_def
  by (intro remove_double_slashes_head replace_backslash_head) (simp add: startswith_def)

lemma normalize_clean: "\<not> str_contains ''//'' (normalize_dropbox_path x)"
  unfolding normalize_dropbox_path_def Let_def by (rule remove_double_slashes_clean)

lemma normalize_no_backslash: "CHR 0x5C \<notin> set (normalize_dropbox_path x)"
  unfolding normalize_dropbox_path_def Let_def
  using remove_double_slashes_set replace_backslash_gone by blast

lemma normalize_fixed:
  assumes "startswith y ''/''" and "CHR 0x5C \<notin> set y" and "\<not> str_contains ''//'' y"
  shows "normalize_dropbox_path y = y"
  using assms
  by (simp add: normalize_dropbox_path_def replace_backslash_absent remove_double_slashes_fixed)

section \<open>What an attempt leaves unchanged\<close>

text \<open>
  Nothing below the retry loop sleeps or counts attempts: every operation of an attempt
  ends in a state that stands in \<open>frame\<close> to the state it started from.
\<close>

lemma get_client_connected:
  "client_handle s = Some c \<Longrightarrow> get_client be s = (Inr c, s)"
  by (simp add: get_client_def)

lemma client_call_connected:
  "client_handle s = Some c \<Longrightarrow>
   client_call be cl s =
     (case be (events s) cl of Inl e \<Rightarrow> Inl (Backend e) | Inr v \<Rightarrow> Inr v,
      s\<lparr>events := events s @ [Call cl]\<rparr>)"
  by (simp add: client_call_def get_client_connected backend_call_def split: sum.splits)

lemma frame_refl: "frame s s"
  by (auto simp: frame_def intro: exI [of _ "[]"])

lemma frame_trans: "frame s s1 \<Longrightarrow> frame s1 s2 \<Longrightarrow> frame s s2"
  unfolding frame_def
  by (metis append.assoc map_append)

lemma backend_call_frame: "backend_call be c s = (r, s') \<Longrightarrow> frame s s'"
  by (auto simp: backend_call_def frame_def intro: exI [of _ "[c]"])

lemma verify_connection_frame: "verify_connection be s = (r, s') \<Longrightarrow> frame s s'"
  by (auto simp: verify_connection_def backend_call_def frame_def
      split: sum.splits dropbox_exn.splits intro: exI [of _ "[users_get_current_account]"])

lemma connect_frame: "connect be c s = (r, s') \<Longrightarrow> frame s s'"
  unfolding connect_def
  by (auto split: prod.splits sum.splits dest!: verify_connection_frame simp: frame_def)

lemma get_client_frame: "get_client be s = (r, s') \<Longrightarrow> frame s s'"
  unfolding get_client_def legacy_client_def Let_def
  by (auto split: option.splits if_splits dest: connect_frame simp: frame_refl)

lemma client_call_frame: "client_call be c s = (r, s') \<Longrightarrow> frame s s'"
  unfolding client_call_def
  by (auto split: prod.splits sum.splits dest: get_client_frame backend_call_frame frame_trans)

lemma upload_chunks_frame:
  assumes run: "upload_chunks be content file_size commit pos session_id s = Some y"
  shows "frame s (snd y)"
proof (rule upload_chunks.raw_induct
    [where P = "\<lambda>be content file_size commit pos session_id s y. frame s (snd y)", OF _ run])
  fix rec :: "backend \<Rightarrow> bytes \<Rightarrow> nat \<Rightarrow> commit_info \<Rightarrow> nat \<Rightarrow> string \<Rightarrow> state
      \<Rightarrow> ((raised + string) \<times> state) option"
    and be :: backend and content :: bytes and file_size :: nat and commit :: commit_info
    and pos :: nat and session_id :: string and s :: state and y :: "(raised + string) \<times> state"
  assume IH: "\<And>be content file_size commit pos session_id s y.
      rec be content file_size commit pos session_id s = Some y \<Longrightarrow> frame s (snd y)"
  assume step: "(if pos < file_size
      then let remaining = file_size - pos
           in if remaining \<le> CHUNK_SIZE
              then Some (client_call be
                      (files_upload_session_finish (f_read content pos remaining)
                         (UploadSessionCursor session_id pos) commit) s)
              else case client_call be
                      (files_upload_session_append_v2 (f_read content pos CHUNK_SIZE)
                         (UploadSessionCursor session_id pos)) s of
                   (Inl e, s1) \<Rightarrow> Some (Inl e, s1)
                 | (Inr v, s1) \<Rightarrow>
                     rec be content file_size commit
                       (pos + length (f_read content pos CHUNK_SIZE)) session_id s1
      else Some (Inl (Uploader (UploadError ''Unexpected end of file during chunked upload'')), s))
     = Some y"
  show "frame s (snd y)"
  proof (cases "pos < file_size")
    case False
    with step have "snd y = s" by auto
    then show ?thesis by (simp add: frame_refl)
  next
    case True
    note inside = this
    show ?thesis
    proof (cases "file_size - pos \<le> CHUNK_SIZE")
      case True
      with inside step show ?thesis
        by (auto simp: Let_def intro: client_call_frame [OF prod.collapse [symmetric]])
    next
      case False
      obtain r1 s1 where app: "client_call be
          (files_upload_session_append_v2 (f_read content pos CHUNK_SIZE)
             (UploadSessionCursor session_id pos)) s = (r1, s1)"
        by (cases "client_call be
          (files_upload_session_append_v2 (f_read content pos CHUNK_SIZE)
             (UploadSessionCursor session_id pos)) s")
      have f1: "frame s s1" by (rule client_call_frame [OF app])
      show ?thesis
      proof (cases r1)
        case (Inl e)
        with inside False app step have "y = (Inl e, s1)" by (simp add: Let_def)
        with f1 show ?thesis by simp
      next
        case (Inr v)
        with inside False app step have "rec be content file_size commit
            (pos + length (f_read content pos CHUNK_SIZE)) session_id s1 = Some y"
          by (simp add: Let_def)
        then have "frame s1 (snd y)" by (rule IH)
        with f1 show ?thesis by (rule frame_trans)
      qed
    qed
  qed
qed

lemma upload_large_file_frame:
  "upload_large_file be file dropbox_path file_size overwrite s = Some (r, s') \<Longrightarrow> frame s s'"
  unfolding upload_large_file_def Let_def
  by (auto split: prod.splits sum.splits
      dest!: client_call_frame upload_chunks_frame dest: frame_trans)

lemma attempt_upload_frame:
  "attempt_upload be file dropbox_path file_size overwrite s = Some (r, s') \<Longrightarrow> frame s s'"
  unfolding attempt_upload_def upload_small_file_def
  by (auto split: if_splits dest: client_call_frame upload_large_file_frame)

text \<open>The definitions a concrete run is evaluated with.\<close>

lemmas run_defs =
  upload_def attempt_upload_def upload_small_file_def client_call_def get_client_def
  legacy_client_def connect_def verify_connection_def backend_call_def truthy_def text_of_def
  scripted_def retry_or_fail_def sleep_def count_attempt_def lower_def char_lower_def
  MAX_RETRIES_def RETRY_DELAY_def destination_path_def normalize_dropbox_path_def
  startswith_def remove_double_slashes.simps write_mode_of_def
  token_uploader_def report_file_def missing_file_def example_host_def upt_rec Let_def
  char_of_def bit_Suc_0_iff

lemmas example_defs = flaky_state_1_def flaky_state_2_def flaky_state_3_def
  recovering_backend_def failing_backend_def

lemmas sdk_defs = sdk_conflict_once_def sdk_conflict_always_def sdk_conflict_def
  sdk_conflict_text_def conflict_state_1_def conflict_state_2_def

section \<open>The retry loop, step by step\<close>

lemma attempt_numbers: "[1..<MAX_RETRIES + 1] = [1, 2, 3]"
  by (simp add: MAX_RETRIES_def upt_rec)

lemma handle_exception_attempts:
  "handle_exception dropbox_path overwrite n e s = (x, s') \<Longrightarrow> attempts s' = attempts s"
  by (cases "(dropbox_path, overwrite, n, e, s)" rule: handle_exception.cases)
    (auto simp: retry_or_fail_def sleep_def split: if_splits)


lemma handle_retryable:
  "retryable overwrite e \<Longrightarrow> n < MAX_RETRIES \<Longrightarrow>
   handle_exception dropbox_path overwrite n e s =
     (None, if conflict_literal e then s else sleep RETRY_DELAY s)"
  by (cases "(dropbox_path, overwrite, n, e, s)" rule: handle_exception.cases)
    (auto simp: retry_or_fail_def split: if_splits)

lemma handle_exhausted:
  "retryable overwrite e \<Longrightarrow> \<not> n < MAX_RETRIES \<Longrightarrow> \<not> conflict_literal e \<Longrightarrow>
   \<exists>msg. handle_exception dropbox_path overwrite n e s = (Some (UploadError msg), s) \<and>
     wraps_cause msg e"
  by (cases "(dropbox_path, overwrite, n, e, s)" rule: handle_exception.cases)
    (auto simp: retry_or_fail_def wraps_cause_def suffix_Cons split: if_splits)

lemma handle_conflict_overwrite:
  "retryable overwrite e \<Longrightarrow> conflict_literal e \<Longrightarrow>
   handle_exception dropbox_path overwrite n e s = (None, s)"
  by (cases "(dropbox_path, overwrite, n, e, s)" rule: handle_exception.cases)
    (auto simp: retry_or_fail_def split: if_splits)

lemma retry_loop_retry:
  assumes "attempt_upload be file dropbox_path file_size overwrite (count_attempt s) = Some (Inl e, s1)"
    and "retryable overwrite e" and "n < MAX_RETRIES"
  shows "retry_loop be file dropbox_path file_size overwrite (n # rest) last_error s =
     retry_loop be file dropbox_path file_size overwrite rest (Some e)
       (snd (handle_exception dropbox_path overwrite n e s1))"
  using assms by (simp add: handle_retryable)

lemma retry_loop_last:
  assumes "attempt_upload be file dropbox_path file_size overwrite (count_attempt s) = Some (Inl e, s1)"
    and "retryable overwrite e" and "\<not> n < MAX_RETRIES"
  shows "\<exists>msg. retry_loop be file dropbox_path file_size overwrite [n] last_error s =
     Some (Inl (UploadError msg), s1) \<and> wraps_cause msg e"
proof (cases "conflict_literal e")
  case True
  with assms have "handle_exception dropbox_path overwrite n e s1 = (None, s1)"
    by (simp add: handle_conflict_overwrite)
  moreover have "wraps_cause (''Upload failed after 3 attempts: '' @ raised_str e) e"
    by (cases e rule: cause_text.cases) (auto simp: wraps_cause_def suffix_Cons)
  ultimately show ?thesis using assms by simp
next
  case False
  from handle_exhausted [OF assms(2,3) False] obtain msg where
    "handle_exception dropbox_path overwrite n e s1 = (Some (UploadError msg), s1)"
    "wraps_cause msg e" by blast
  then show ?thesis using assms by simp
qed

lemma retry_loop_attempts:
  "retry_loop be file dropbox_path file_size overwrite ns last_error s = Some (r, s') \<Longrightarrow>
   attempts s' \<le> attempts s + length ns"
proof (induction ns arbitrary: last_error s)
  case Nil
  then show ?case by simp
next
  case (Cons n ns)
  show ?case
  proof (cases "attempt_upload be file dropbox_path file_size overwrite (count_attempt s)")
    case None
    with Cons.prems show ?thesis by simp
  next
    case (Some y)
    obtain r1 s1 where y: "y = (r1, s1)" by (cases y)
    from attempt_upload_frame [OF Some [unfolded y]]
    have a1: "attempts s1 = attempts s + 1" by (simp add: frame_def count_attempt_def)
    show ?thesis
    proof (cases r1)
      case (Inr p)
      with Cons.prems Some y a1 show ?thesis by auto
    next
      case (Inl e)
      obtain x s2 where h: "handle_exception dropbox_path overwrite n e s1 = (x, s2)"
        by (cases "handle_exception dropbox_path overwrite n e s1")
      have a2: "attempts s2 = attempts s1" by (rule handle_exception_attempts [OF h])
      show ?thesis
      proof (cases x)
        case (Some err)
        with Cons.prems \<open>attempt_upload be file dropbox_path file_size overwrite (count_attempt s) = Some y\<close>
          y Inl h a1 a2 show ?thesis by auto
      next
        case None
        with Cons.prems \<open>attempt_upload be file dropbox_path file_size overwrite (count_attempt s) = Some y\<close>
          y Inl h
        have "retry_loop be file dropbox_path file_size overwrite ns (Some e) s2 = Some (r, s')"
          by simp
        from Cons.IH [OF this] a1 a2 show ?thesis by simp
      qed
    qed
  qed
qed

lemma upload_present:
  "file_exists (path_lookup h (resolve_local_path h local_path)) \<Longrightarrow>
   is_file (path_lookup h (resolve_local_path h local_path)) \<Longrightarrow>
   upload h be local_path dropbox_folder filename overwrite s =
     retry_loop be (path_lookup h (resolve_local_path h local_path))
       (destination_path dropbox_folder filename
          (file_name (path_lookup h (resolve_local_path h local_path))))
       (st_size (path_lookup h (resolve_local_path h local_path))) overwrite [1, 2, 3] None s"
  unfolding upload_def Let_def attempt_numbers by (simp del: retry_loop.simps)

lemma upload_attempts:
  assumes "upload h be local_path dropbox_folder filename overwrite s = Some (r, s')"
  shows "attempts s' \<le> attempts s + 3"
proof (cases "file_exists (path_lookup h (resolve_local_path h local_path)) \<and>
    is_file (path_lookup h (resolve_local_path h local_path))")
  case True
  with assms have "retry_loop be (path_lookup h (resolve_local_path h local_path))
       (destination_path dropbox_folder filename
          (file_name (path_lookup h (resolve_local_path h local_path))))
       (st_size (path_lookup h (resolve_local_path h local_path))) overwrite [1, 2, 3] None s
     = Some (r, s')"
    by (simp add: upload_present)
  from retry_loop_attempts [OF this] show ?thesis by simp
next
  case False
  with assms have "s' = s" by (auto simp: upload_def Let_def split: if_splits)
  then show ?thesis by simp
qed



lemma auth_error_fails_at_once:
  assumes "attempt_upload be file dropbox_path file_size overwrite (count_attempt s) =
             Some (Inl (Backend (AuthError m)), s1)"
  shows "retry_loop be file dropbox_path file_size overwrite (attempt # rest) last_error s =
           Some (Inl (AuthenticationError (''Authentication failed: '' @ m)), s1)"
  using assms by simp

text \<open>
  What the code does with an API error that passes its test for a path conflict: it
  fails at once when overwrite is disabled, and goes on to the next attempt without a
  sleep when overwrite is enabled.
\<close>

lemma literal_conflict_fails_at_once:
  assumes "attempt_upload be file dropbox_path file_size False (count_attempt s) =
             Some (Inl (Backend (ApiError m error_msg)), s1)"
    and "str_contains ''path/conflict'' (lower error_msg)"
  shows "retry_loop be file dropbox_path file_size False (attempt # rest) last_error s =
           Some (Inl (UploadError (''File already exists at '' @ dropbox_path)), s1)"
  using assms by simp

lemma literal_conflict_retried_at_once:
  assumes "attempt_upload be file dropbox_path file_size True (count_attempt s) =
             Some (Inl e, s1)"
    and "conflict_literal e"
  shows "retry_loop be file dropbox_path file_size True (attempt # rest) last_error s =
           retry_loop be file dropbox_path file_size True rest (Some e) s1"
proof -
  from assms(2) have "retryable True e" by (cases e rule: conflict_literal.cases) auto
  with assms show ?thesis by (simp add: handle_conflict_overwrite)
qed

section \<open>Errors as the SDK renders them\<close>


lemma sleeps_append: "sleeps (xs @ ys) = sleeps xs @ sleeps ys"
  by (induction xs rule: sleeps.induct) auto









lemma sleeps_after_sleep: "sleeps (events (sleep RETRY_DELAY s)) = sleeps (events s) @ [5]"
  by (simp add: sleep_def RETRY_DELAY_def sleeps_append)



section \<open>The large-file session, step by step\<close>

lemma CHUNK_SIZE_pos: "0 < CHUNK_SIZE"
  by (simp add: CHUNK_SIZE_def)

lemma f_read_full:
  "pos + n \<le> length content \<Longrightarrow> length (f_read content pos n) = n"
  by (simp add: f_read_def)

lemma f_read_rest:
  "f_read content pos (length content - pos) = drop pos content"
  by (simp add: f_read_def)

lemma get_client_not_upload_error:
  "get_client be s = (Inl e, s') \<Longrightarrow> e \<noteq> UploadError m"
  unfolding get_client_def legacy_client_def connect_def verify_connection_def Let_def
  by (auto split: option.splits if_splits prod.splits sum.splits dropbox_exn.splits)

lemma client_call_not_eof: "fst (client_call be c s) \<noteq> unexpected_eof"
  unfolding client_call_def unexpected_eof_def
  by (auto split: prod.splits sum.splits dest: get_client_not_upload_error)

lemma upload_chunks_returns:
  assumes len: "length content = file_size"
  shows "pos < file_size \<Longrightarrow>
    \<exists>r s'. upload_chunks be content file_size commit pos session_id s = Some (r, s') \<and>
      r \<noteq> unexpected_eof"
proof (induction "file_size - pos" arbitrary: pos s rule: less_induct)
  case less
  show ?case
  proof (cases "file_size - pos \<le> CHUNK_SIZE")
    case True
    let ?f = "files_upload_session_finish (f_read content pos (file_size - pos))
        (UploadSessionCursor session_id pos) commit"
    obtain r s' where fin: "client_call be ?f s = (r, s')"
      by (cases "client_call be ?f s")
    have "r \<noteq> unexpected_eof" using client_call_not_eof [of be ?f s] fin by simp
    with less.prems True fin show ?thesis
      by (subst upload_chunks.simps) (simp add: Let_def)
  next
    case False
    let ?c = "files_upload_session_append_v2 (f_read content pos CHUNK_SIZE)
        (UploadSessionCursor session_id pos)"
    obtain r1 s1 where app: "client_call be ?c s = (r1, s1)"
      by (cases "client_call be ?c s")
    have r1: "r1 \<noteq> unexpected_eof" using client_call_not_eof [of be ?c s] app by simp
    from False len have full: "length (f_read content pos CHUNK_SIZE) = CHUNK_SIZE"
      by (intro f_read_full) simp
    show ?thesis
    proof (cases r1)
      case (Inl e)
      with less.prems False app r1 show ?thesis
        by (subst upload_chunks.simps) (simp add: Let_def)
    next
      case (Inr v)
      from False CHUNK_SIZE_pos have smaller: "file_size - (pos + CHUNK_SIZE) < file_size - pos"
        and inside: "pos + CHUNK_SIZE < file_size" by simp_all
      from less.hyps [OF smaller inside, of s1] obtain r s' where
        "upload_chunks be content file_size commit (pos + CHUNK_SIZE) session_id s1 = Some (r, s')"
        "r \<noteq> unexpected_eof" by blast
      with less.prems False app Inr full show ?thesis
        by (subst upload_chunks.simps) (simp add: Let_def)
    qed
  qed
qed

lemma client_call_accepted:
  assumes "accepts_all be" and "client_handle s = Some cl"
  shows "\<exists>v. client_call be c s = (Inr v, s\<lparr>events := events s @ [Call c]\<rparr>)"
proof -
  from assms(1) obtain v where "be (events s) c = Inr v"
    unfolding accepts_all_def by blast
  with assms(2) show ?thesis by (simp add: client_call_connected)
qed

lemma get_client_accepted:
  assumes "accepts_all be" and "client_handle s = None" and "has_credentials s"
  shows "\<exists>cl. get_client be s =
    (Inr cl, s\<lparr>client_handle := Some cl, events := events s @ [Call users_get_current_account]\<rparr>)"
proof -
  from assms(1) obtain v where v: "be (events s) users_get_current_account = Inr v"
    unfolding accepts_all_def by blast
  have con: "connect be cl s =
      (Inr cl, s\<lparr>client_handle := Some cl, events := events s @ [Call users_get_current_account]\<rparr>)"
    for cl
    using v by (simp add: connect_def verify_connection_def backend_call_def)
  show ?thesis
  proof (cases "truthy (refresh_token s) \<and> truthy (app_key s) \<and> truthy (app_secret s)")
    case True
    with assms(2) con show ?thesis by (simp add: get_client_def)
  next
    case False
    with assms(3) have "truthy (if truthy (explicit_access_token s) then explicit_access_token s
        else env_access_token s)"
      by (auto simp: has_credentials_def)
    with False assms(2) con show ?thesis
      by (simp add: get_client_def legacy_client_def Let_def)
  qed
qed

lemma first_call_accepted:
  assumes "accepts_all be" and "client_handle s \<noteq> None \<or> has_credentials s"
  shows "\<exists>v cl. client_call be c s =
    (Inr v, s\<lparr>client_handle := Some cl,
              events := events s @
                (if client_handle s = None then [Call users_get_current_account] else []) @
                [Call c]\<rparr>)"
proof (cases "client_handle s")
  case None
  with assms(2) have "has_credentials s" by simp
  from get_client_accepted [OF assms(1) None this] obtain cl where
    g: "get_client be s = (Inr cl, s\<lparr>client_handle := Some cl,
          events := events s @ [Call users_get_current_account]\<rparr>)" by blast
  from assms(1) obtain v where
    "be (events s @ [Call users_get_current_account]) c = Inr v"
    unfolding accepts_all_def by blast
  with g None have "client_call be c s =
      (Inr v, s\<lparr>client_handle := Some cl,
                events := events s @
                  (if client_handle s = None then [Call users_get_current_account] else []) @
                  [Call c]\<rparr>)"
    by (simp add: client_call_def backend_call_def)
  then show ?thesis by blast
next
  case (Some cl)
  from client_call_accepted [OF assms(1) Some, of c] obtain v where
    "client_call be c s = (Inr v, s\<lparr>events := events s @ [Call c]\<rparr>)" by blast
  moreover have "s\<lparr>events := events s @ [Call c]\<rparr> =
      s\<lparr>client_handle := Some cl, events := events s @ [Call c]\<rparr>"
    using Some by simp
  ultimately show ?thesis using Some by auto
qed

lemma upload_chunks_accepted:
  assumes acc: "accepts_all be" and len: "length content = file_size"
  shows "pos < file_size \<Longrightarrow> client_handle s = Some cl \<Longrightarrow>
    \<exists>path_display appends last_chunk offset.
      upload_chunks be content file_size commit pos session_id s =
        Some (Inr path_display,
              s\<lparr>events := events s @ map Call appends @
                 [Call (files_upload_session_finish last_chunk
                    (UploadSessionCursor session_id offset) commit)]\<rparr>) \<and>
      full_chunks appends \<and>
      concat (map call_data appends) @ last_chunk = drop pos content \<and>
      0 < length last_chunk \<and> length last_chunk \<le> CHUNK_SIZE \<and>
      offset = pos + CHUNK_SIZE * length appends"
proof (induction "file_size - pos" arbitrary: pos s rule: less_induct)
  case less
  show ?case
  proof (cases "file_size - pos \<le> CHUNK_SIZE")
    case True
    let ?f = "files_upload_session_finish (f_read content pos (file_size - pos))
        (UploadSessionCursor session_id pos) commit"
    from client_call_accepted [OF acc less.prems(2), of ?f] obtain v where
      fin: "client_call be ?f s = (Inr v, s\<lparr>events := events s @ [Call ?f]\<rparr>)" by blast
    have "upload_chunks be content file_size commit pos session_id s =
        Some (Inr v, s\<lparr>events := events s @ map Call [] @ [Call ?f]\<rparr>)"
      using less.prems True fin by (subst upload_chunks.simps) (simp add: Let_def)
    moreover have "full_chunks []" by (simp add: full_chunks_def)
    moreover have "concat (map call_data []) @ f_read content pos (file_size - pos) =
        drop pos content"
      using f_read_rest [of content pos] len by simp
    moreover have "0 < length (f_read content pos (file_size - pos)) \<and>
        length (f_read content pos (file_size - pos)) \<le> CHUNK_SIZE \<and>
        pos = pos + CHUNK_SIZE * length ([] :: call list)"
      using less.prems(1) True len by (simp add: f_read_def)
    ultimately show ?thesis by blast
  next
    case False
    let ?chunk = "f_read content pos CHUNK_SIZE"
    let ?c = "files_upload_session_append_v2 ?chunk (UploadSessionCursor session_id pos)"
    let ?s1 = "s\<lparr>events := events s @ [Call ?c]\<rparr>"
    from client_call_accepted [OF acc less.prems(2), of ?c] obtain v where
      app: "client_call be ?c s = (Inr v, ?s1)" by blast
    from False len have full: "length ?chunk = CHUNK_SIZE"
      by (intro f_read_full) simp
    from False CHUNK_SIZE_pos have smaller: "file_size - (pos + CHUNK_SIZE) < file_size - pos"
      and inside: "pos + CHUNK_SIZE < file_size" by simp_all
    have handle: "client_handle ?s1 = Some cl" using less.prems(2) by simp
    from less.hyps [OF smaller inside handle] obtain path_display appends last_chunk offset where
      rest: "upload_chunks be content file_size commit (pos + CHUNK_SIZE) session_id ?s1 =
        Some (Inr path_display,
              ?s1\<lparr>events := events ?s1 @ map Call appends @
                 [Call (files_upload_session_finish last_chunk
                    (UploadSessionCursor session_id offset) commit)]\<rparr>)"
      and chunks: "full_chunks appends"
      and data: "concat (map call_data appends) @ last_chunk = drop (pos + CHUNK_SIZE) content"
      and last: "0 < length last_chunk \<and> length last_chunk \<le> CHUNK_SIZE"
      and offset: "offset = pos + CHUNK_SIZE + CHUNK_SIZE * length appends"
      by blast
    have "upload_chunks be content file_size commit pos session_id s =
        Some (Inr path_display,
              s\<lparr>events := events s @ map Call (?c # appends) @
                 [Call (files_upload_session_finish last_chunk
                    (UploadSessionCursor session_id offset) commit)]\<rparr>)"
      using less.prems False app full rest by (subst upload_chunks.simps) (simp add: Let_def)
    moreover have "full_chunks (?c # appends)"
      using chunks full by (simp add: full_chunks_def)
    moreover have "concat (map call_data (?c # appends)) @ last_chunk = drop pos content"
    proof -
      have "take CHUNK_SIZE (drop pos content) @ drop (pos + CHUNK_SIZE) content =
          drop pos content"
        using append_take_drop_id [of CHUNK_SIZE "drop pos content"]
        by (simp add: add.commute)
      with data show ?thesis by (simp add: f_read_def)
    qed
    moreover have "offset = pos + CHUNK_SIZE * length (?c # appends)"
      using offset by simp
    ultimately show ?thesis using last by blast
  qed
qed

lemma full_chunks_length:
  "full_chunks cs \<Longrightarrow> length (concat (map call_data cs)) = CHUNK_SIZE * length cs"
  by (induction cs) (auto simp: full_chunks_def)

lemma append_count:
  assumes total: "CHUNK_SIZE + CHUNK_SIZE * n + l = file_size"
    and last: "0 < l" "l \<le> CHUNK_SIZE"
  shows "n = (file_size - 1) div CHUNK_SIZE - 1"
proof -
  from total last have eq: "file_size - 1 = (l - 1) + Suc n * CHUNK_SIZE"
    by (simp add: algebra_simps)
  from last have small: "(l - 1) div CHUNK_SIZE = 0" by simp
  have "((l - 1) + Suc n * CHUNK_SIZE) div CHUNK_SIZE = Suc n + (l - 1) div CHUNK_SIZE"
    using CHUNK_SIZE_pos by (intro div_mult_self1) simp
  with eq small show ?thesis by simp
qed

lemma small_path_first_call:
  assumes "client_handle s = Some cl"
    and "upload_small_file be file dropbox_path overwrite s = (r, s')"
  shows "events s' = events s @
    [Call (files_upload (file_content file) dropbox_path (write_mode_of overwrite))]"
  using assms by (auto simp: upload_small_file_def client_call_connected)

lemma large_path_first_call:
  assumes con: "client_handle s = Some cl"
    and run: "upload_large_file be file dropbox_path file_size overwrite s = Some (r, s')"
  shows "\<exists>cs. events s' = events s @
    Call (files_upload_session_start (take CHUNK_SIZE (file_content file))) # map Call cs"
proof -
  let ?start = "files_upload_session_start (f_read (file_content file) 0 CHUNK_SIZE)"
  let ?s1 = "s\<lparr>events := events s @ [Call ?start]\<rparr>"
  show ?thesis
  proof (cases "be (events s) ?start")
    case (Inl e)
    with con run have "s' = ?s1"
      by (simp add: upload_large_file_def Let_def client_call_connected)
    then have "events s' = events s @
        Call (files_upload_session_start (take CHUNK_SIZE (file_content file))) # map Call []"
      by (simp add: f_read_def)
    then show ?thesis by blast
  next
    case (Inr session_id)
    with con run have "upload_chunks be (file_content file) file_size
        (CommitInfo dropbox_path (write_mode_of overwrite))
        (length (f_read (file_content file) 0 CHUNK_SIZE)) session_id ?s1 = Some (r, s')"
      by (simp add: upload_large_file_def Let_def client_call_connected)
    from upload_chunks_frame [OF this] obtain cs where
      "events s' = events ?s1 @ map Call cs" by (auto simp: frame_def)
    then have "events s' = events s @
        Call (files_upload_session_start (take CHUNK_SIZE (file_content file))) # map Call cs"
      by (simp add: f_read_def)
    then show ?thesis by blast
  qed
qed

text \<open>
  For a file of at most 150 MiB, or one whose content is as long as its size says, every
  attempt returns, and so does the upload call.
\<close>

lemma large_attempt_returns:
  assumes size: "150 * 1024 * 1024 < file_size"
    and len: "length (file_content file) = file_size"
  shows "\<exists>r s'. attempt_upload be file dropbox_path file_size overwrite s = Some (r, s') \<and>
    r \<noteq> unexpected_eof"
proof -
  let ?content = "file_content file"
  let ?first = "f_read ?content 0 CHUNK_SIZE"
  let ?start = "files_upload_session_start ?first"
  let ?commit = "CommitInfo dropbox_path (write_mode_of overwrite)"
  from size have large: "\<not> file_size \<le> 150 * 1024 * 1024" by simp
  from size len have first_len: "length ?first = CHUNK_SIZE"
    by (simp add: f_read_def CHUNK_SIZE_def)
  from size have inside: "CHUNK_SIZE < file_size" by (simp add: CHUNK_SIZE_def)
  have attempt: "attempt_upload be file dropbox_path file_size overwrite s =
      (case client_call be ?start s of
         (Inl e, s1) \<Rightarrow> Some (Inl e, s1)
       | (Inr session_id, s1) \<Rightarrow>
           upload_chunks be ?content file_size ?commit CHUNK_SIZE session_id s1)"
    unfolding attempt_upload_def upload_large_file_def Let_def first_len using large by simp
  obtain r1 s1 where st: "client_call be ?start s = (r1, s1)"
    by (cases "client_call be ?start s")
  have r1: "r1 \<noteq> unexpected_eof" using client_call_not_eof [of be ?start s] st by simp
  show ?thesis
  proof (cases r1)
    case (Inl e)
    with st r1 attempt show ?thesis by simp
  next
    case (Inr session_id)
    from upload_chunks_returns [OF len inside, of be ?commit session_id s1]
    show ?thesis using st Inr attempt by simp
  qed
qed

lemma attempt_upload_returns:
  assumes "file_size \<le> 150 * 1024 * 1024 \<or> length (file_content file) = file_size"
  shows "\<exists>y. attempt_upload be file dropbox_path file_size overwrite s = Some y"
proof (cases "file_size \<le> 150 * 1024 * 1024")
  case True
  then show ?thesis by (simp add: attempt_upload_def)
next
  case False
  with assms have "150 * 1024 * 1024 < file_size" "length (file_content file) = file_size"
    by simp_all
  from large_attempt_returns [OF this] show ?thesis by blast
qed

lemma retry_loop_returns:
  assumes "file_size \<le> 150 * 1024 * 1024 \<or> length (file_content file) = file_size"
  shows "\<exists>y. retry_loop be file dropbox_path file_size overwrite ns last_error s = Some y"
proof (induction ns arbitrary: last_error s)
  case Nil
  show ?case by simp
next
  case (Cons n ns)
  from attempt_upload_returns [OF assms] obtain r1 s1 where
    a: "attempt_upload be file dropbox_path file_size overwrite (count_attempt s) = Some (r1, s1)"
    by (metis surj_pair)
  show ?case
  proof (cases r1)
    case (Inr p)
    with a show ?thesis by simp
  next
    case (Inl e)
    obtain x s2 where h: "handle_exception dropbox_path overwrite n e s1 = (x, s2)"
      by (cases "handle_exception dropbox_path overwrite n e s1")
    show ?thesis
    proof (cases x)
      case None
      with a Inl h Cons.IH [of "Some e" s2] show ?thesis by simp
    next
      case (Some err)
      with a Inl h show ?thesis by simp
    qed
  qed
qed

lemma upload_returns:
  assumes "st_size (path_lookup h (resolve_local_path h local_path)) \<le> 150 * 1024 * 1024 \<or>
    length (file_content (path_lookup h (resolve_local_path h local_path))) =
      st_size (path_lookup h (resolve_local_path h local_path))"
  shows "\<exists>r s'. upload h be local_path dropbox_folder filename overwrite s = Some (r, s')"
proof -
  from retry_loop_returns [OF assms] have
    "\<exists>y. upload h be local_path dropbox_folder filename overwrite s = Some y"
    by (simp add: upload_def Let_def)
  then show ?thesis by (metis surj_pair)
qed

section \<open>Claims about upload\<close>

text \<open>
  Claim C1. Take a file whose size exceeds 150 MiB and whose content has exactly that
  many bytes. Then an attempt returns, whatever the backend answers, and never with the
  defensive \<open>UploadError\<close> for an unexpected end of file. When the backend accepts every
  call (and the uploader has a client or a credential to create one), the attempt
  succeeds and the events it adds are, after the identity check of a new client: one
  start call carrying the first 4 MiB, append calls of exactly 4 MiB each, and one finish
  call carrying between 1 byte and 4 MiB; start, appends and finish carry the content of
  the file in order, so the bytes sent add up to the file size, and the number of appends
  is \<open>(file_size - 1) div CHUNK_SIZE - 1\<close> (36 for a file of 150 MiB and one byte).
\<close>

theorem large_file_session:
  assumes size: "150 * 1024 * 1024 < file_size"
    and len: "length (file_content file) = file_size"
  shows "(\<exists>r s'. attempt_upload be file dropbox_path file_size overwrite s = Some (r, s') \<and>
            r \<noteq> unexpected_eof) \<and>
         (accepts_all be \<and> (client_handle s \<noteq> None \<or> has_credentials s) \<longrightarrow>
          (\<exists>path_display s' appends last_chunk offset session_id.
             attempt_upload be file dropbox_path file_size overwrite s =
               Some (Inr path_display, s') \<and>
             events s' = events s @
               (if client_handle s = None then [Call users_get_current_account] else []) @
               Call (files_upload_session_start (take CHUNK_SIZE (file_content file))) #
               map Call appends @
               [Call (files_upload_session_finish last_chunk
                        (UploadSessionCursor session_id offset)
                        (CommitInfo dropbox_path (write_mode_of overwrite)))] \<and>
             length (take CHUNK_SIZE (file_content file)) = 4 * 1024 * 1024 \<and>
             full_chunks appends \<and>
             0 < length last_chunk \<and> length last_chunk \<le> 4 * 1024 * 1024 \<and>
             take CHUNK_SIZE (file_content file) @ concat (map call_data appends) @ last_chunk =
               file_content file \<and>
             length (take CHUNK_SIZE (file_content file)) +
               length (concat (map call_data appends)) + length last_chunk = file_size \<and>
             length appends = (file_size - 1) div CHUNK_SIZE - 1))"
proof (intro conjI impI)
  let ?content = "file_content file"
  let ?first = "f_read ?content 0 CHUNK_SIZE"
  let ?start = "files_upload_session_start ?first"
  let ?commit = "CommitInfo dropbox_path (write_mode_of overwrite)"
  from size have large: "\<not> file_size \<le> 150 * 1024 * 1024" by simp
  from size len have first_len: "length ?first = CHUNK_SIZE"
    by (simp add: f_read_def CHUNK_SIZE_def)
  from size have inside: "CHUNK_SIZE < file_size" by (simp add: CHUNK_SIZE_def)
  have attempt: "attempt_upload be file dropbox_path file_size overwrite s =
      (case client_call be ?start s of
         (Inl e, s1) \<Rightarrow> Some (Inl e, s1)
       | (Inr session_id, s1) \<Rightarrow>
           upload_chunks be ?content file_size ?commit CHUNK_SIZE session_id s1)"
    unfolding attempt_upload_def upload_large_file_def Let_def first_len using large by simp
  show "\<exists>r s'. attempt_upload be file dropbox_path file_size overwrite s = Some (r, s') \<and>
      r \<noteq> unexpected_eof"
    by (rule large_attempt_returns [OF size len])
  assume env: "accepts_all be \<and> (client_handle s \<noteq> None \<or> has_credentials s)"
  then have acc: "accepts_all be" and con: "client_handle s \<noteq> None \<or> has_credentials s"
    by simp_all
  let ?pre = "if client_handle s = None then [Call users_get_current_account] else []"
  from first_call_accepted [OF acc con, of ?start] obtain session_id cl where
    st: "client_call be ?start s =
      (Inr session_id, s\<lparr>client_handle := Some cl, events := events s @ ?pre @ [Call ?start]\<rparr>)"
    by blast
  let ?s1 = "s\<lparr>client_handle := Some cl, events := events s @ ?pre @ [Call ?start]\<rparr>"
  have handle: "client_handle ?s1 = Some cl" by simp
  from upload_chunks_accepted [OF acc len inside handle, of ?commit session_id]
  obtain path_display appends last_chunk offset where
    run: "upload_chunks be ?content file_size ?commit CHUNK_SIZE session_id ?s1 =
        Some (Inr path_display,
              ?s1\<lparr>events := events ?s1 @ map Call appends @
                 [Call (files_upload_session_finish last_chunk
                    (UploadSessionCursor session_id offset) ?commit)]\<rparr>)"
    and chunks: "full_chunks appends"
    and data: "concat (map call_data appends) @ last_chunk = drop CHUNK_SIZE ?content"
    and last: "0 < length last_chunk" "length last_chunk \<le> CHUNK_SIZE"
    by blast
  let ?s' = "?s1\<lparr>events := events ?s1 @ map Call appends @
                 [Call (files_upload_session_finish last_chunk
                    (UploadSessionCursor session_id offset) ?commit)]\<rparr>"
  have result: "attempt_upload be file dropbox_path file_size overwrite s =
      Some (Inr path_display, ?s')"
    using attempt st run by simp
  have trace: "events ?s' = events s @ ?pre @
      Call (files_upload_session_start (take CHUNK_SIZE ?content)) # map Call appends @
      [Call (files_upload_session_finish last_chunk (UploadSessionCursor session_id offset) ?commit)]"
    by (simp add: f_read_def)
  have first: "length (take CHUNK_SIZE ?content) = 4 * 1024 * 1024"
    using first_len by (simp add: f_read_def CHUNK_SIZE_def)
  have whole: "take CHUNK_SIZE ?content @ concat (map call_data appends) @ last_chunk = ?content"
    using data by simp
  from arg_cong [OF whole, of length] len
  have total: "length (take CHUNK_SIZE ?content) + length (concat (map call_data appends)) +
      length last_chunk = file_size"
    by simp
  from last have last': "0 < length last_chunk \<and> length last_chunk \<le> 4 * 1024 * 1024"
    by (simp add: CHUNK_SIZE_def)
  have count: "length appends = (file_size - 1) div CHUNK_SIZE - 1"
  proof (rule append_count)
    from total first_len full_chunks_length [OF chunks]
    show "CHUNK_SIZE + CHUNK_SIZE * length appends + length last_chunk = file_size"
      by (simp add: f_read_def)
  qed (use last in simp_all)
  from result trace first chunks last' whole total count
  show "\<exists>path_display s' appends last_chunk offset session_id.
             attempt_upload be file dropbox_path file_size overwrite s =
               Some (Inr path_display, s') \<and>
             events s' = events s @
               (if client_handle s = None then [Call users_get_current_account] else []) @
               Call (files_upload_session_start (take CHUNK_SIZE (file_content file))) #
               map Call appends @
               [Call (files_upload_session_finish last_chunk
                        (UploadSessionCursor session_id offset)
                        (CommitInfo dropbox_path (write_mode_of overwrite)))] \<and>
             length (take CHUNK_SIZE (file_content file)) = 4 * 1024 * 1024 \<and>
             full_chunks appends \<and>
             0 < length last_chunk \<and> length last_chunk \<le> 4 * 1024 * 1024 \<and>
             take CHUNK_SIZE (file_content file) @ concat (map call_data appends) @ last_chunk =
               file_content file \<and>
             length (take CHUNK_SIZE (file_content file)) +
               length (concat (map call_data appends)) + length last_chunk = file_size \<and>
             length appends = (file_size - 1) div CHUNK_SIZE - 1"
    by blast
qed

theorem large_file_session_witness:
  "150 * 1024 * 1024 < (157286401::nat) \<and>
   length (file_content large_file) = 157286401 \<and>
   accepts_all (scripted []) \<and> has_credentials token_uploader \<and>
   (\<exists>r s'. attempt_upload (scripted []) large_file ''/video.bin'' 157286401 True
              token_uploader = Some (r, s') \<and> r \<noteq> unexpected_eof) \<and>
   (\<exists>path_display s' appends last_chunk.
      attempt_upload (scripted []) large_file ''/video.bin'' 157286401 True token_uploader =
        Some (Inr path_display, s') \<and>
      full_chunks appends \<and>
      take CHUNK_SIZE (file_content large_file) @ concat (map call_data appends) @ last_chunk =
        file_content large_file \<and>
      length (take CHUNK_SIZE (file_content large_file)) +
        length (concat (map call_data appends)) + length last_chunk = 157286401 \<and>
      length appends = 36)"
proof -
  have size: "150 * 1024 * 1024 < (157286401::nat)" by simp
  have len: "length (file_content large_file) = 157286401" by (simp add: large_file_def)
  have acc: "accepts_all (scripted [])" by (simp add: accepts_all_def scripted_def)
  have cred: "has_credentials token_uploader"
    by (simp add: has_credentials_def token_uploader_def truthy_def)
  note inst = large_file_session [OF size len, of "scripted []" "''/video.bin''" True token_uploader]
  from acc cred have env: "accepts_all (scripted []) \<and>
      (client_handle token_uploader \<noteq> None \<or> has_credentials token_uploader)" by simp
  from inst [THEN conjunct2, rule_format, OF env]
  obtain path_display s' appends last_chunk where
    run: "attempt_upload (scripted []) large_file ''/video.bin'' 157286401 True token_uploader =
        Some (Inr path_display, s')"
    "full_chunks appends"
    "take CHUNK_SIZE (file_content large_file) @ concat (map call_data appends) @ last_chunk =
        file_content large_file"
    "length (take CHUNK_SIZE (file_content large_file)) +
        length (concat (map call_data appends)) + length last_chunk = 157286401"
    and count: "length appends = (157286401 - 1) div CHUNK_SIZE - 1"
    by blast
  have "(157286401 - 1) div CHUNK_SIZE - 1 = (36::nat)"
    by (simp add: CHUNK_SIZE_def)
  with count have "length appends = 36" by simp
  with run have second: "\<exists>path_display s' appends last_chunk.
      attempt_upload (scripted []) large_file ''/video.bin'' 157286401 True token_uploader =
        Some (Inr path_display, s') \<and>
      full_chunks appends \<and>
      take CHUNK_SIZE (file_content large_file) @ concat (map call_data appends) @ last_chunk =
        file_content large_file \<and>
      length (take CHUNK_SIZE (file_content large_file)) +
        length (concat (map call_data appends)) + length last_chunk = 157286401 \<and>
      length appends = 36"
    by blast
  from size len acc cred inst [THEN conjunct1] second show ?thesis by (intro conjI)
qed

text \<open>
  Claim C2. An upload call that returns has entered the retry loop at most three times,
  and it does return when the file has at most 150 MiB or its content is as long as its
  size says. When the first and the second attempt fail with a retryable failure and the
  third succeeds, the call returns the path the third attempt's backend call confirmed.
  When the third attempt fails with a retryable failure too, the call fails with
  \<open>UploadError\<close>, and its message ends with the text of that last failure. The states
  \<open>s1\<close>, \<open>s2\<close>, \<open>s3\<close> are the ones the attempts end in; \<open>after\<close> is the state the
  exception handler leaves for the next attempt.
\<close>

theorem upload_bounded_retry:
  fixes h :: host and be :: backend and local_path dropbox_folder :: string
    and filename :: "string option" and overwrite :: bool
  defines "file \<equiv> path_lookup h (resolve_local_path h local_path)"
  defines "dropbox_path \<equiv> destination_path dropbox_folder filename (file_name file)"
  defines "outcome \<equiv> \<lambda>s. attempt_upload be file dropbox_path (st_size file) overwrite (count_attempt s)"
  defines "after \<equiv> \<lambda>n e s. snd (handle_exception dropbox_path overwrite n e s)"
  shows "(\<forall>r s'. upload h be local_path dropbox_folder filename overwrite s = Some (r, s')
            \<longrightarrow> attempts s' \<le> attempts s + 3) \<and>
         (st_size file \<le> 150 * 1024 * 1024 \<or> length (file_content file) = st_size file
            \<longrightarrow> (\<exists>r s'. upload h be local_path dropbox_folder filename overwrite s =
                    Some (r, s'))) \<and>
         (\<forall>e1 s1 e2 s2 path_display s3.
            file_exists file \<and> is_file file \<and>
            outcome s = Some (Inl e1, s1) \<and> retryable overwrite e1 \<and>
            outcome (after 1 e1 s1) = Some (Inl e2, s2) \<and> retryable overwrite e2 \<and>
            outcome (after 2 e2 s2) = Some (Inr path_display, s3)
            \<longrightarrow> upload h be local_path dropbox_folder filename overwrite s =
                  Some (Inr path_display, s3)) \<and>
         (\<forall>e1 s1 e2 s2 e3 s3.
            file_exists file \<and> is_file file \<and>
            outcome s = Some (Inl e1, s1) \<and> retryable overwrite e1 \<and>
            outcome (after 1 e1 s1) = Some (Inl e2, s2) \<and> retryable overwrite e2 \<and>
            outcome (after 2 e2 s2) = Some (Inl e3, s3) \<and> retryable overwrite e3
            \<longrightarrow> (\<exists>msg. upload h be local_path dropbox_folder filename overwrite s =
                    Some (Inl (UploadError msg), s3) \<and> wraps_cause msg e3))"
proof (intro conjI allI impI)
  fix r s'
  assume "upload h be local_path dropbox_folder filename overwrite s = Some (r, s')"
  then show "attempts s' \<le> attempts s + 3" by (rule upload_attempts)
next
  assume "st_size file \<le> 150 * 1024 * 1024 \<or> length (file_content file) = st_size file"
  then show "\<exists>r s'. upload h be local_path dropbox_folder filename overwrite s = Some (r, s')"
    unfolding file_def by (rule upload_returns)
next
  fix e1 s1 e2 s2 path_display s3
  assume a: "file_exists file \<and> is_file file \<and>
            outcome s = Some (Inl e1, s1) \<and> retryable overwrite e1 \<and>
            outcome (after 1 e1 s1) = Some (Inl e2, s2) \<and> retryable overwrite e2 \<and>
            outcome (after 2 e2 s2) = Some (Inr path_display, s3)"
  have lt: "(1::nat) < MAX_RETRIES" "(2::nat) < MAX_RETRIES" by (simp_all add: MAX_RETRIES_def)
  from a have "upload h be local_path dropbox_folder filename overwrite s =
      retry_loop be file dropbox_path (st_size file) overwrite [1, 2, 3] None s"
    unfolding file_def dropbox_path_def by (simp add: upload_present)
  also from a have "\<dots> = retry_loop be file dropbox_path (st_size file) overwrite [2, 3] (Some e1)
      (after 1 e1 s1)"
    unfolding outcome_def after_def by (intro retry_loop_retry lt) simp_all
  also from a have "\<dots> = retry_loop be file dropbox_path (st_size file) overwrite [3] (Some e2)
      (after 2 e2 s2)"
    unfolding outcome_def after_def by (intro retry_loop_retry lt) simp_all
  also from a have "\<dots> = Some (Inr path_display, s3)"
    unfolding outcome_def by simp
  finally show "upload h be local_path dropbox_folder filename overwrite s =
      Some (Inr path_display, s3)" .
next
  fix e1 s1 e2 s2 e3 s3
  assume a: "file_exists file \<and> is_file file \<and>
            outcome s = Some (Inl e1, s1) \<and> retryable overwrite e1 \<and>
            outcome (after 1 e1 s1) = Some (Inl e2, s2) \<and> retryable overwrite e2 \<and>
            outcome (after 2 e2 s2) = Some (Inl e3, s3) \<and> retryable overwrite e3"
  have lt: "(1::nat) < MAX_RETRIES" "(2::nat) < MAX_RETRIES" by (simp_all add: MAX_RETRIES_def)
  have last: "\<not> (3::nat) < MAX_RETRIES" by (simp add: MAX_RETRIES_def)
  from a have "upload h be local_path dropbox_folder filename overwrite s =
      retry_loop be file dropbox_path (st_size file) overwrite [1, 2, 3] None s"
    unfolding file_def dropbox_path_def by (simp add: upload_present)
  also from a have "\<dots> = retry_loop be file dropbox_path (st_size file) overwrite [2, 3] (Some e1)
      (after 1 e1 s1)"
    unfolding outcome_def after_def by (intro retry_loop_retry lt) simp_all
  also from a have "\<dots> = retry_loop be file dropbox_path (st_size file) overwrite [3] (Some e2)
      (after 2 e2 s2)"
    unfolding outcome_def after_def by (intro retry_loop_retry lt) simp_all
  finally have up: "upload h be local_path dropbox_folder filename overwrite s =
      retry_loop be file dropbox_path (st_size file) overwrite [3] (Some e2) (after 2 e2 s2)" .
  from a have "outcome (after 2 e2 s2) = Some (Inl e3, s3)" "retryable overwrite e3" by simp_all
  from retry_loop_last [OF this(1) [unfolded outcome_def] this(2) last, of "Some e2"] up
  show "\<exists>msg. upload h be local_path dropbox_folder filename overwrite s =
      Some (Inl (UploadError msg), s3) \<and> wraps_cause msg e3"
    by simp
qed

theorem upload_bounded_retry_witness:
  "upload example_host recovering_backend ''report.md'' ''/Reports'' None True token_uploader =
     Some (Inr ''/Reports/report.md'', flaky_state_3) \<and>
   attempts flaky_state_3 \<le> attempts token_uploader + 3 \<and>
   (\<exists>r s'. upload example_host failing_backend ''report.md'' ''/Reports'' None True
      token_uploader = Some (r, s')) \<and>
   (\<exists>msg. upload example_host failing_backend ''report.md'' ''/Reports'' None True token_uploader =
     Some (Inl (UploadError msg), flaky_state_3) \<and>
     wraps_cause msg (Backend (OtherException ''broken pipe'')))"
proof -
  let ?file = "path_lookup example_host (resolve_local_path example_host ''report.md'')"
  let ?dp = "destination_path ''/Reports'' None (file_name ?file)"
  let ?outcome = "\<lambda>be s. attempt_upload be ?file ?dp (st_size ?file) True (count_attempt s)"
  let ?after = "\<lambda>n e s. snd (handle_exception ?dp True n e s)"
  let ?e1 = "Backend (ConnectionError ''reset'')"
  let ?e2 = "Backend (TimeoutError ''timed out'')"
  let ?e3 = "Backend (OtherException ''broken pipe'')"
  have recovered: "file_exists ?file \<and> is_file ?file \<and>
      ?outcome recovering_backend token_uploader = Some (Inl ?e1, flaky_state_1) \<and>
      retryable True ?e1 \<and>
      ?outcome recovering_backend (?after 1 ?e1 flaky_state_1) = Some (Inl ?e2, flaky_state_2) \<and>
      retryable True ?e2 \<and>
      ?outcome recovering_backend (?after 2 ?e2 flaky_state_2) =
        Some (Inr ''/Reports/report.md'', flaky_state_3)"
    by (simp add: run_defs example_defs)
  have failed: "file_exists ?file \<and> is_file ?file \<and>
      ?outcome failing_backend token_uploader = Some (Inl ?e1, flaky_state_1) \<and>
      retryable True ?e1 \<and>
      ?outcome failing_backend (?after 1 ?e1 flaky_state_1) = Some (Inl ?e2, flaky_state_2) \<and>
      retryable True ?e2 \<and>
      ?outcome failing_backend (?after 2 ?e2 flaky_state_2) = Some (Inl ?e3, flaky_state_3) \<and>
      retryable True ?e3"
    by (simp add: run_defs example_defs)
  have first: "upload example_host recovering_backend ''report.md'' ''/Reports'' None True
      token_uploader = Some (Inr ''/Reports/report.md'', flaky_state_3)"
    by (rule upload_bounded_retry [where s = token_uploader, THEN conjunct2, THEN conjunct2,
          THEN conjunct1, rule_format, OF recovered])
  have second: "attempts flaky_state_3 \<le> attempts token_uploader + 3"
    by (rule upload_bounded_retry [where s = token_uploader, THEN conjunct1, rule_format,
          OF first])
  have third: "\<exists>msg. upload example_host failing_backend ''report.md'' ''/Reports'' None True
      token_uploader = Some (Inl (UploadError msg), flaky_state_3) \<and> wraps_cause msg ?e3"
    by (rule upload_bounded_retry [where s = token_uploader, THEN conjunct2, THEN conjunct2,
          THEN conjunct2, rule_format, OF failed])
  have small: "st_size ?file \<le> 150 * 1024 * 1024 \<or> length (file_content ?file) = st_size ?file"
    by (simp add: example_host_def report_file_def)
  have returns: "\<exists>r s'. upload example_host failing_backend ''report.md'' ''/Reports'' None True
      token_uploader = Some (r, s')"
    by (rule upload_bounded_retry [where s = token_uploader, THEN conjunct2, THEN conjunct1,
          rule_format, OF small])
  from first second returns third show ?thesis by (intro conjI)
qed

text \<open>
  Claim C3, as the code runs it. The credentials are rejected when the connection is
  verified on the first attempt. \<^verbatim>\<open>_verify_connection\<close> raises \<open>AuthenticationError\<close>,
  the catch-all clause of the retry loop takes it for a retryable failure, sleeps five
  seconds and runs a second attempt with the client that was never verified; the backend
  accepts that upload, and the call returns its path. The lemma \<open>auth_error_fails_at_once\<close>
  above is the behaviour of the sibling path: an \<open>AuthError\<close> raised by an upload or session
  call ends the loop at once with \<open>AuthenticationError\<close>.
\<close>

theorem rejected_credentials_at_connection:
  "upload example_host rejecting_backend ''report.md'' ''/Reports'' None True token_uploader =
   Some (Inr ''/Reports/report.md'',
     token_uploader\<lparr>client_handle := Some (TokenClient ''token''),
       events := [Call users_get_current_account, Sleep 5,
                  Call (files_upload [1, 2, 3] ''/Reports/report.md'' overwrite_mode)],
       attempts := 2\<rparr>)"
  by (simp add: run_defs rejecting_backend_def)



text \<open>
  Claim C5. The body of an attempt is the small-file path when the size is at most
  157,286,400 bytes and the large-file path otherwise, for every size; a file of exactly
  150 MiB is uploaded in one request, one of a byte more in a session. The two paths are
  told apart by the first call an attempt of a connected uploader makes: the whole-file
  upload in the first case, the start of a session in the second. \<open>upload\<close> passes the
  size \<open>stat\<close> reported before the loop to every attempt.
\<close>

theorem path_by_size:
  "attempt_upload be file dropbox_path file_size overwrite s =
     (if file_size \<le> 157286400
      then Some (upload_small_file be file dropbox_path overwrite s)
      else upload_large_file be file dropbox_path file_size overwrite s) \<and>
   attempt_upload be file dropbox_path 157286400 overwrite s =
     Some (upload_small_file be file dropbox_path overwrite s) \<and>
   attempt_upload be file dropbox_path 157286401 overwrite s =
     upload_large_file be file dropbox_path 157286401 overwrite s \<and>
   (\<forall>cl r s'. client_handle s = Some cl \<and>
       attempt_upload be file dropbox_path file_size overwrite s = Some (r, s')
      \<longrightarrow> (\<exists>cs. events s' = events s @
             Call (if file_size \<le> 157286400
                   then files_upload (file_content file) dropbox_path (write_mode_of overwrite)
                   else files_upload_session_start (take CHUNK_SIZE (file_content file))) #
             map Call cs))"
proof (intro conjI allI impI)
  fix cl r s'
  assume a: "client_handle s = Some cl \<and>
       attempt_upload be file dropbox_path file_size overwrite s = Some (r, s')"
  show "\<exists>cs. events s' = events s @
             Call (if file_size \<le> 157286400
                   then files_upload (file_content file) dropbox_path (write_mode_of overwrite)
                   else files_upload_session_start (take CHUNK_SIZE (file_content file))) #
             map Call cs"
  proof (cases "file_size \<le> 157286400")
    case True
    with a have "upload_small_file be file dropbox_path overwrite s = (r, s')"
      by (simp add: attempt_upload_def)
    from small_path_first_call [OF conjunct1 [OF a] this] True
    have "events s' = events s @
             Call (if file_size \<le> 157286400
                   then files_upload (file_content file) dropbox_path (write_mode_of overwrite)
                   else files_upload_session_start (take CHUNK_SIZE (file_content file))) #
             map Call []" by simp
    then show ?thesis by blast
  next
    case False
    with a have "upload_large_file be file dropbox_path file_size overwrite s = Some (r, s')"
      by (simp add: attempt_upload_def)
    from large_path_first_call [OF conjunct1 [OF a] this] False show ?thesis by simp
  qed
qed (simp_all add: attempt_upload_def)

theorem path_by_size_witness:
  "client_handle connected_uploader = Some (TokenClient ''token'') \<and>
   attempt_upload (scripted [Inr ''/report.md'']) report_file ''/report.md'' 157286400 True
     connected_uploader =
     Some (Inr ''/report.md'', connected_uploader\<lparr>events :=
             [Call (files_upload [1, 2, 3] ''/report.md'' overwrite_mode)]\<rparr>) \<and>
   attempt_upload (scripted [Inl (ConnectionError ''reset'')]) report_file ''/report.md''
     157286401 True connected_uploader =
     Some (Inl (Backend (ConnectionError ''reset'')), connected_uploader\<lparr>events :=
             [Call (files_upload_session_start [1, 2, 3])]\<rparr>) \<and>
   (\<exists>cs. events (connected_uploader\<lparr>events :=
             [Call (files_upload [1, 2, 3] ''/report.md'' overwrite_mode)]\<rparr>) =
          events connected_uploader @
          Call (files_upload (file_content report_file) ''/report.md'' (write_mode_of True)) #
          map Call cs) \<and>
   (\<exists>cs. events (connected_uploader\<lparr>events :=
             [Call (files_upload_session_start [1, 2, 3])]\<rparr>) =
          events connected_uploader @
          Call (files_upload_session_start (take CHUNK_SIZE (file_content report_file))) #
          map Call cs)"
proof -
  have con: "client_handle connected_uploader = Some (TokenClient ''token'')"
    by (simp add: connected_uploader_def)
  have small: "attempt_upload (scripted [Inr ''/report.md'']) report_file ''/report.md''
      157286400 True connected_uploader =
     Some (Inr ''/report.md'', connected_uploader\<lparr>events :=
             [Call (files_upload [1, 2, 3] ''/report.md'' overwrite_mode)]\<rparr>)"
    by (simp add: run_defs connected_uploader_def)
  have large: "attempt_upload (scripted [Inl (ConnectionError ''reset'')]) report_file
      ''/report.md'' 157286401 True connected_uploader =
     Some (Inl (Backend (ConnectionError ''reset'')), connected_uploader\<lparr>events :=
             [Call (files_upload_session_start [1, 2, 3])]\<rparr>)"
    by (simp add: run_defs connected_uploader_def upload_large_file_def f_read_def CHUNK_SIZE_def)
  from path_by_size [THEN conjunct2, THEN conjunct2, THEN conjunct2, rule_format,
      OF conjI [OF con small]]
  have first: "\<exists>cs. events (connected_uploader\<lparr>events :=
             [Call (files_upload [1, 2, 3] ''/report.md'' overwrite_mode)]\<rparr>) =
          events connected_uploader @
          Call (files_upload (file_content report_file) ''/report.md'' (write_mode_of True)) #
          map Call cs" by simp
  from path_by_size [THEN conjunct2, THEN conjunct2, THEN conjunct2, rule_format,
      OF conjI [OF con large]]
  have second: "\<exists>cs. events (connected_uploader\<lparr>events :=
             [Call (files_upload_session_start [1, 2, 3])]\<rparr>) =
          events connected_uploader @
          Call (files_upload_session_start (take CHUNK_SIZE (file_content report_file))) #
          map Call cs" by simp
  from con small large first second show ?thesis by (intro conjI)
qed

text \<open>
  Claim C6. When the resolved local path does not exist or is not a regular file, upload
  fails with \<open>FileNotFoundError\<close> whatever the backend, and the state is as before: no
  event (no backend call, no sleep), no client created, no attempt counted.
\<close>

theorem upload_missing_file:
  assumes "\<not> file_exists (path_lookup h (resolve_local_path h local_path)) \<or>
           \<not> is_file (path_lookup h (resolve_local_path h local_path))"
  shows "\<exists>msg s'. upload h be local_path dropbox_folder filename overwrite s =
             Some (Inl (FileNotFoundError msg), s') \<and>
           events s' = events s \<and> client_handle s' = client_handle s \<and>
           attempts s' = attempts s"
  using assms by (auto simp: upload_def Let_def)

theorem upload_missing_file_witness:
  "\<not> file_exists (path_lookup example_host (resolve_local_path example_host ''nothing.md'')) \<and>
   (\<exists>msg s'. upload example_host (scripted []) ''nothing.md'' ''/Reports'' None True token_uploader =
             Some (Inl (FileNotFoundError msg), s') \<and>
           events s' = [] \<and> client_handle s' = None \<and> attempts s' = 0)"
proof -
  have missing: "\<not> file_exists (path_lookup example_host (resolve_local_path example_host ''nothing.md''))"
    by (simp add: example_host_def missing_file_def)
  have start: "events token_uploader = [] \<and> client_handle token_uploader = None \<and> attempts token_uploader = 0"
    by (simp add: token_uploader_def)
  from upload_missing_file [OF disjI1 [OF missing], of "scripted []" "''/Reports''" None True token_uploader]
  show ?thesis using missing start by simp
qed

text \<open>
  Claim C7, as the code runs it. Overwrite is disabled and the remote path exists, so
  every upload call ends in the SDK's conflict error. Its text does not hold the literal
  the code looks for, so the error takes the generic branch: the loop sleeps, retries and
  gives up after the third attempt with \<open>Upload failed after 3 attempts\<close>, not with the
  message that the file already exists. The lemma \<open>literal_conflict_fails_at_once\<close> above is
  what the code does when its test is passed.
\<close>

theorem existing_file_without_overwrite:
  "upload example_host sdk_conflict_always ''report.md'' ''/Reports'' None False token_uploader =
   Some (Inl (UploadError (''Upload failed after 3 attempts: '' @ sdk_conflict_text)),
     token_uploader\<lparr>client_handle := Some (TokenClient ''token''),
       events := [Call users_get_current_account,
                  Call (files_upload [1, 2, 3] ''/Reports/report.md'' add_mode), Sleep 5,
                  Call (files_upload [1, 2, 3] ''/Reports/report.md'' add_mode), Sleep 5,
                  Call (files_upload [1, 2, 3] ''/Reports/report.md'' add_mode)],
       attempts := 3\<rparr>)"
  by (simp add: run_defs sdk_defs)

section \<open>Claims about the path normalisation\<close>

text \<open>
  Claim C8. For every input \<open>x\<close> the normalised path starts with a slash, does not start
  with two, and holds no double slash anywhere; the destination path \<open>upload\<close> computes
  for a request (its folder, its optional file name and the local file's name) is such a
  normalised path and so has the same three properties.
\<close>

theorem normalize_dropbox_path_invariant:
  "startswith (normalize_dropbox_path x) ''/'' \<and>
   \<not> startswith (normalize_dropbox_path x) ''//'' \<and>
   \<not> str_contains ''//'' (normalize_dropbox_path x) \<and>
   startswith (destination_path dropbox_folder filename name) ''/'' \<and>
   \<not> startswith (destination_path dropbox_folder filename name) ''//'' \<and>
   \<not> str_contains ''//'' (destination_path dropbox_folder filename name)"
proof -
  have inv: "startswith (normalize_dropbox_path y) ''/'' \<and>
      \<not> startswith (normalize_dropbox_path y) ''//'' \<and>
      \<not> str_contains ''//'' (normalize_dropbox_path y)" for y
    using normalize_head [of y] normalize_clean [of y]
      double_slash_prefix_contained [of "normalize_dropbox_path y"] by blast
  show ?thesis
    using inv [of x] inv unfolding destination_path_def Let_def by blast
qed

text \<open>
  Claim C9. Normalising is idempotent: a normalised path starts with a slash and holds
  neither a backslash nor a double slash, so normalising it again changes nothing.
\<close>

theorem normalize_dropbox_path_idempotent:
  "normalize_dropbox_path (normalize_dropbox_path x) = normalize_dropbox_path x"
  by (rule normalize_fixed [OF normalize_head normalize_no_backslash normalize_clean])

text \<open>
  Claim C10. The four examples: the relative path gets its leading slash; the path written
  with backslashes, single or doubled, comes out with single forward slashes; the doubled
  forward slashes are collapsed.
\<close>

theorem normalize_dropbox_path_examples:
  "normalize_dropbox_path ''Reports/2024'' = ''/Reports/2024'' \<and>
   normalize_dropbox_path ([CHR 0x5C] @ ''Reports'' @ [CHR 0x5C] @ ''2024'') = ''/Reports/2024'' \<and>
   normalize_dropbox_path
     ([CHR 0x5C, CHR 0x5C] @ ''Reports'' @ [CHR 0x5C, CHR 0x5C] @ ''2024'') = ''/Reports/2024'' \<and>
   normalize_dropbox_path ''/Reports//2024//file.md'' = ''/Reports/2024/file.md''"
  by (simp add: normalize_dropbox_path_def startswith_def remove_double_slashes.simps)

end
